theory Spec2Isabelle
  imports Complex_Main "HOL-Library.AList" "HOL-Library.Char_ord" "HOL-Library.List_Lexorder"
begin

section \<open>Strings\<close>

text \<open>
  A Python \<open>str\<close> is modelled as a \<open>string\<close>: a list of code points below 256, the
  Latin-1 range of Unicode. Strings are compared as Python compares them, lexicographically
  by code point (the orders of \<open>Char_ord\<close> and \<open>List_Lexorder\<close>).

  \<open>py_isspace\<close> is \<open>str.isspace\<close> on one character, which is also the class \<open>\s\<close> of
  \<open>re\<close> and what \<open>str.strip()\<close> removes: TAB..CR, FS..US, SPACE, NEL and NBSP.
  \<open>py_lower_char\<close> is \<open>str.lower\<close> on one character: A..Z and the Latin-1 capitals
  (all of 0xC0..0xDE but the multiplication sign 0xD7) move up by 32.
\<close>

definition py_isspace :: "char \<Rightarrow> bool" where
  "py_isspace c =
     (let n = (of_char c :: nat)
      in (9 \<le> n \<and> n \<le> 13) \<or> (28 \<le> n \<and> n \<le> 32) \<or> n = 133 \<or> n = 160)"

definition py_lower_char :: "char \<Rightarrow> char" where
  "py_lower_char c =
     (let n = (of_char c :: nat)
      in if (65 \<le> n \<and> n \<le> 90) \<or> (192 \<le> n \<and> n \<le> 222 \<and> n \<noteq> 215)
         then char_of (n + 32) else c)"

definition py_lower :: "string \<Rightarrow> string" where
  "py_lower s = map py_lower_char s"

definition py_strip :: "string \<Rightarrow> string" where
  "py_strip s = rev (dropWhile py_isspace (rev (dropWhile py_isspace s)))"

text \<open>
  \<open>re.sub(r"\s+", " ", s)\<close>: every maximal run of whitespace becomes one space. The flag
  says whether the character before was whitespace (the run's space is already written).
\<close>

fun sub_ws_runs :: "bool \<Rightarrow> string \<Rightarrow> string" where
  "sub_ws_runs in_run [] = []"
| "sub_ws_runs in_run (c # cs) =
     (if py_isspace c
      then (if in_run then sub_ws_runs True cs else CHR '' '' # sub_ws_runs True cs)
      else c # sub_ws_runs False cs)"

definition normalize_name :: "string \<Rightarrow> string" where
  "normalize_name name = sub_ws_runs False (py_lower (py_strip name))"

text \<open>\<open>k in t\<close> on strings: \<open>k\<close> occurs in \<open>t\<close> as a contiguous substring.\<close>

fun starts_with :: "string \<Rightarrow> string \<Rightarrow> bool" where
  "starts_with [] t = True"
| "starts_with (a # k) [] = False"
| "starts_with (a # k) (b # t) = (a = b \<and> starts_with k t)"

fun py_in :: "string \<Rightarrow> string \<Rightarrow> bool" where
  "py_in k [] = (k = [])"
| "py_in k (c # t) = (starts_with k (c # t) \<or> py_in k t)"

text \<open>\<open>any(k in t for k in keys)\<close> and \<open>sum(1 for k in keys if k in t)\<close>.\<close>

definition any_in :: "string list \<Rightarrow> string \<Rightarrow> bool" where
  "any_in keys t = list_ex (\<lambda>k. py_in k t) keys"

definition count_hits :: "string list \<Rightarrow> string \<Rightarrow> int" where
  "count_hits keys t = int (length (filter (\<lambda>k. py_in k t) keys))"

section \<open>Configuration constants\<close>

definition DIMENSIONS :: "string list" where
  "DIMENSIONS = [''Maturity'', ''Integration'', ''EmbeddedFit'', ''AuditTraceability'',
     ''AIValue'', ''TCO'', ''CommunitySupport'']"

definition PHASE_KEYWORDS :: "(string \<times> string list) list" where
  "PHASE_KEYWORDS =
    [(''Stakeholder Needs / System Requirements'',
        [''requirements'', ''alm'', ''traceability'', ''reqif'']),
     (''Architektur/Design'',
        [''mbse'', ''sysml'', ''model-based'', ''architecture'', ''simulation'']),
     (''Implementierung'',
        [''static analysis'', ''linter'', ''code generation'', ''codegen'', ''compiler'', ''ide'']),
     (''Integration & Test (Komponenten)'',
        [''unit test'', ''ci'', ''cd'', ''pipeline'', ''coverage'', ''testing'']),
     (''System Integration & Validierung'',
        [''hil'', ''sil'', ''simulation'', ''gazebo'', ''isaac'', ''validation'']),
     (''Release / Operations'',
        [''observability'', ''monitoring'', ''prometheus'', ''grafana'', ''deployment'']),
     (''Safety & Security'',
        [''iso 26262'', ''iec 62304'', ''safety'', ''security'', ''vulnerability'', ''sast'']),
     (''Data/AI Lifecycle'',
        [''mlops'', ''model registry'', ''drift'', ''training'', ''inference'', ''feature store'']),
     (''Documentation & Audit'',
        [''doxygen'', ''sphinx'', ''audit'', ''traceability'', ''documentation''])]"

definition EMBEDDED_HINTS :: "string list" where
  "EMBEDDED_HINTS = [''embedded'', ''mcu'', ''rtos'', ''zephyr'', ''freertos'', ''arm'',
     ''stm32'', ''bare-metal'', ''firmware'']"

definition INTEGRATION_HINTS :: "string list" where
  "INTEGRATION_HINTS = [''github actions'', ''jira'', ''gitlab'', ''jenkins'', ''docker'',
     ''kubernetes'', ''ros'', ''ros2'', ''cmake'']"

definition AUDIT_HINTS :: "string list" where
  "AUDIT_HINTS = [''trace'', ''audit'', ''compliance'', ''iso'', ''iec'', ''safety'', ''governance'']"

definition AI_HINTS_ASSISTED :: "string list" where
  "AI_HINTS_ASSISTED = [''llm'', ''genai'', ''copilot'', ''agent'', ''ai-powered'', ''assistant'']"

definition AI_HINTS_CORE :: "string list" where
  "AI_HINTS_CORE = [''training'', ''inference'', ''mlops'', ''model registry'', ''drift'',
     ''synthetic data'']"

section \<open>Text classifier\<close>

definition infer_vmodel_phases :: "string \<Rightarrow> string list" where
  "infer_vmodel_phases text =
     (let t = py_lower text;
          phases = [phase. (phase, keys) \<leftarrow> PHASE_KEYWORDS, any_in keys t]
      in if phases = [] then [''Data/AI Lifecycle''] else phases)"

definition infer_ai_involvement :: "string \<Rightarrow> string" where
  "infer_ai_involvement text =
     (let t = py_lower text
      in if any_in AI_HINTS_CORE t then ''core''
         else if any_in AI_HINTS_ASSISTED t then ''assisted''
         else ''none'')"

section \<open>Dimension scorer\<close>

definition clamp :: "int \<Rightarrow> int \<Rightarrow> int \<Rightarrow> int" where
  "clamp n lo hi = max lo (min hi n)"

text \<open>
  \<open>age_years\<close> is a Python float that is only compared with 5; it is modelled as a real.
  The variable \<open>s\<close> of the source is assigned three times in a row: \<open>s0\<close>, \<open>s1\<close>, \<open>s2\<close>.
\<close>

definition score_maturity :: "int \<Rightarrow> real \<Rightarrow> int \<Rightarrow> int" where
  "score_maturity stars age_years updated_days =
     (let s0 = (if stars \<ge> 5000 then 5
                else if stars \<ge> 1000 then 4
                else if stars \<ge> 200 then 3
                else if stars \<ge> 50 then 2
                else 1);
          s1 = (if age_years \<ge> 5 then s0 + 1 else s0);
          s2 = (if updated_days > 365 then s1 - 2
                else if updated_days > 180 then s1 - 1
                else if updated_days < 30 then s1 + 1
                else s1)
      in clamp s2 0 5)"

definition score_community :: "int \<Rightarrow> int \<Rightarrow> int \<Rightarrow> int" where
  "score_community stars forks open_issues =
     (let base0 = (if stars \<ge> 5000 then 5
                   else if stars \<ge> 1000 then 4
                   else if stars \<ge> 200 then 3
                   else if stars \<ge> 50 then 2
                   else 1);
          base1 = (if forks \<ge> 500 then base0 + 1
                   else if forks \<ge> 100 then base0 + 0
                   else base0);
          base2 = (if open_issues \<ge> 500 then base1 - 1 else base1)
      in clamp base2 0 5)"

definition hits_to_score :: "int \<Rightarrow> int" where
  "hits_to_score hits =
     (if hits \<ge> 4 then 5
      else if hits = 3 then 4
      else if hits = 2 then 3
      else if hits = 1 then 2
      else 1)"

definition score_embedded :: "string \<Rightarrow> int" where
  "score_embedded text = hits_to_score (count_hits EMBEDDED_HINTS (py_lower text))"

definition score_integration :: "string \<Rightarrow> int" where
  "score_integration text = hits_to_score (count_hits INTEGRATION_HINTS (py_lower text))"

definition score_audit :: "string \<Rightarrow> int" where
  "score_audit text = hits_to_score (count_hits AUDIT_HINTS (py_lower text))"

definition ai_value :: "string \<Rightarrow> int" where
  "ai_value ai_involvement =
     (case map_of [(''none'', 1), (''assisted'', 3), (''core'', 5)] ai_involvement of
        Some v \<Rightarrow> v
      | None \<Rightarrow> 2)"

section \<open>Tier classifier\<close>

text \<open>\<open>scores.get(k, 0)\<close> on a dictionary from dimension names to scores.\<close>

definition get_score :: "(string \<rightharpoonup> int) \<Rightarrow> string \<Rightarrow> int" where
  "get_score scores k = (case scores k of Some v \<Rightarrow> v | None \<Rightarrow> 0)"

definition classify :: "(string \<rightharpoonup> int) \<Rightarrow> string" where
  "classify scores =
     (let m = get_score scores ''Maturity'';
          a = get_score scores ''AIValue''
      in if m \<ge> 4 \<and> a \<ge> 3 then ''Adopt''
         else if m \<ge> 3 \<and> a \<ge> 3 then ''Trial''
         else if m \<ge> 2 then ''Assess''
         else ''Hold'')"

section \<open>Data model\<close>

text \<open>
  A value that a JSON document may hold where the code expects a name. The type of
  \<open>merge_tools\<close> is \<open>List[Dict[str, Any]]\<close>: the name of a record read from the catalog
  document need not be a string. (Lists and objects are left out: they behave as a number
  does, truthy or falsy and without the string methods.)
\<close>

datatype jval = JNull | JBool bool | JNum int | JStr string

fun truthy :: "jval \<Rightarrow> bool" where
  "truthy JNull = False"
| "truthy (JBool b) = b"
| "truthy (JNum n) = (n \<noteq> 0)"
| "truthy (JStr s) = (s \<noteq> [])"

fun type_name :: "jval \<Rightarrow> string" where
  "type_name JNull = ''NoneType''"
| "type_name (JBool b) = ''bool''"
| "type_name (JNum n) = ''int''"
| "type_name (JStr s) = ''str''"

text \<open>
  The exceptions of the pipeline, each with the text \<open>str(e)\<close> gives. \<open>ProviderError\<close> is
  whatever the search request raises (network, HTTP status, a malformed answer);
  \<open>JSONDecodeError\<close> is raised by \<open>json.load\<close> on the catalog document.
\<close>

datatype error =
  AttributeError string | KeyError string | ProviderError string | JSONDecodeError string


definition quoted :: "string \<Rightarrow> string" where
  "quoted s = [CHR 0x27] @ s @ [CHR 0x27]"

definition no_attribute :: "jval \<Rightarrow> string \<Rightarrow> error" where
  "no_attribute v attr =
     AttributeError (quoted (type_name v) @ '' object has no attribute '' @ quoted attr)"

text \<open>One item of the search provider's answer; \<open>None\<close> is a key that is missing or null.\<close>

record item =
  it_name :: "string option"
  it_full_name :: "string option"
  it_html_url :: "string option"
  it_homepage :: "string option"
  it_description :: "string option"
  it_created_at :: "string option"
  it_pushed_at :: "string option"
  it_stargazers_count :: "int option"
  it_forks_count :: "int option"
  it_open_issues_count :: "int option"
  it_owner_login :: "string option option"
    \<comment> \<open>\<open>None\<close>: no owner object or no \<open>login\<close> in it; \<open>Some None\<close>: \<open>login\<close> is null\<close>

record repo =
  repo_full_name :: string
  repo_url :: string
  repo_stars :: int
  repo_forks :: int
  repo_open_issues :: int
  repo_pushed_at :: string
  repo_created_at :: string

text \<open>
  A catalog record. \<open>ToolName\<close> is \<open>None\<close> when the key is missing; \<open>VendorOrganisation\<close>
  and \<open>EvidenceLinks\<close> are \<open>None\<close> when missing or null. The other fields are never read
  by the pipeline and have the types the candidate builder gives them.
\<close>

record tool =
  ToolName :: "jval option"
  VendorOrganisation :: "string option"
  ToolType :: string
  PrimaryUse :: string
  VModelPhases :: "string list"
  AIInvolvement :: string
  Classification :: string
  EvidenceLinks :: "string list option"
  LastVerifiedDate :: string
  UpdateSignal :: "string list"
  RiskFlags :: "string list"
  Notes :: string
  Repo :: repo
  Scores :: "(string \<times> int) list"

text \<open>
  The external collaborators: the search provider (the items of \<open>http_get_json\<close> for a
  query, or the exception it raises), the link checker \<open>http_head_ok\<close> (which catches
  every exception itself), the clock and the process environment. \<open>delta_seconds\<close> is
  \<open>(now - fromisoformat(iso)).total_seconds()\<close> and \<open>delta_days\<close> is \<open>(now - ...).days\<close>,
  \<open>None\<close> when parsing or subtracting raises.
\<close>

record env =
  search :: "string \<Rightarrow> error + item list"
  http_head_ok :: "string \<Rightarrow> bool \<times> string"
  delta_seconds :: "string \<Rightarrow> real option"
  delta_days :: "string \<Rightarrow> int option"
  today_iso :: string
  now_utc_iso :: string
  GITHUB_SHA :: "string option"

definition days_since :: "env \<Rightarrow> string \<Rightarrow> int" where
  "days_since e stamp =
     (case delta_seconds e stamp of
        Some secs \<Rightarrow> max 0 \<lfloor>secs / 86400\<rfloor>
      | None \<Rightarrow> 99999)"

definition years_since :: "env \<Rightarrow> string \<Rightarrow> real" where
  "years_since e stamp =
     (case delta_days e stamp of
        Some d \<Rightarrow> max 0 (real_of_int d / 365.25)
      | None \<Rightarrow> 0)"

section \<open>Candidate builder\<close>

text \<open>\<open>it.get(k) or d\<close> on a string, and \<open>int(it.get(k) or 0)\<close> on a count.\<close>

definition str_or :: "string option \<Rightarrow> string \<Rightarrow> string" where
  "str_or v d = (case v of None \<Rightarrow> d | Some s \<Rightarrow> if s = [] then d else s)"

definition int_or0 :: "int option \<Rightarrow> int" where
  "int_or0 v = (case v of None \<Rightarrow> 0 | Some n \<Rightarrow> n)"

definition build_queries :: "string list" where
  "build_queries =
    [''embedded rtos tool'',
     ''embedded static analysis'',
     ''robotics simulation tool'',
     ''hil sil framework'',
     ''mlops tool open source'',
     ''requirements traceability open source'',
     ''prometheus exporter embedded'',
     ''doxygen sphinx documentation tool'']"

text \<open>The body of the inner loop of \<open>scout_github\<close>, up to \<open>candidates.append\<close>.\<close>

definition build_candidate :: "env \<Rightarrow> string \<Rightarrow> item \<Rightarrow> tool" where
  "build_candidate e q it =
     (let name = str_or (it_name it) ''Unknown'';
          full_name = str_or (it_full_name it) name;
          html_url = str_or (it_html_url it) [];
          homepage = str_or (it_homepage it) [];
          desc = str_or (it_description it) [];
          created = str_or (it_created_at it) [];
          pushed = str_or (it_pushed_at it) [];
          stars = int_or0 (it_stargazers_count it);
          forks = int_or0 (it_forks_count it);
          open_issues = int_or0 (it_open_issues_count it);
          blob = full_name @ '' '' @ desc;
          phases = infer_vmodel_phases blob;
          ai = infer_ai_involvement blob;
          updated_days = (if pushed \<noteq> [] then days_since e pushed else 99999);
          age_years = (if created \<noteq> [] then years_since e created else 0);
          scores =
            [(''Maturity'', score_maturity stars age_years updated_days),
             (''Integration'', score_integration blob),
             (''EmbeddedFit'', score_embedded blob),
             (''AuditTraceability'', score_audit blob),
             (''AIValue'', ai_value ai),
             (''TCO'', 5),
             (''CommunitySupport'', score_community stars forks open_issues)];
          classification = classify (map_of scores);
          evidence = [html_url, if homepage \<noteq> [] then homepage else html_url]
      in \<lparr>ToolName = Some (JStr name),
          VendorOrganisation =
            (case it_owner_login it of None \<Rightarrow> Some ''Open Source'' | Some login \<Rightarrow> login),
          ToolType = ''Open Source'',
          PrimaryUse =
            (if desc \<noteq> [] then desc else ''Open-source tool (discovered via GitHub search)''),
          VModelPhases = phases,
          AIInvolvement = ai,
          Classification = classification,
          EvidenceLinks = Some (take 2 evidence),
          LastVerifiedDate = today_iso e,
          UpdateSignal = [''GitHubReleases''],
          RiskFlags = [''Unvalidated (auto-discovered)''],
          Notes = ''Discovered via GitHub search query: '' @ quoted q @ ''. Scores are heuristic.'',
          Repo = \<lparr>repo_full_name = full_name, repo_url = html_url, repo_stars = stars,
                  repo_forks = forks, repo_open_issues = open_issues,
                  repo_pushed_at = pushed, repo_created_at = created\<rparr>,
          Scores = scores\<rparr>)"

section \<open>Names of records\<close>

text \<open>\<open>t.get("ToolName", d)\<close>; \<open>t.get("ToolName")\<close> is \<open>get_ToolName t JNull\<close>.\<close>

definition get_ToolName :: "tool \<Rightarrow> jval \<Rightarrow> jval" where
  "get_ToolName t d = (case ToolName t of None \<Rightarrow> d | Some v \<Rightarrow> v)"

text \<open>\<open>normalize_name\<close> called on a value that may not be a string.\<close>

definition py_normalize_name :: "jval \<Rightarrow> error + string" where
  "py_normalize_name v =
     (case v of JStr s \<Rightarrow> Inr (normalize_name s) | _ \<Rightarrow> Inl (no_attribute v ''strip''))"

text \<open>The sort key \<open>(x.get("ToolName") or "").lower()\<close>.\<close>

definition sort_name :: "tool \<Rightarrow> error + string" where
  "sort_name x =
     (let v = get_ToolName x JNull;
          w = (if truthy v then v else JStr [])
      in case w of JStr s \<Rightarrow> Inr (py_lower s) | _ \<Rightarrow> Inl (no_attribute w ''lower''))"

text \<open>
  \<open>xs.sort(key=...)\<close>: the key of every element is computed first, in order (the first
  failure is raised and the list stays as it was); then the list is sorted by key, stably.
\<close>

fun name_keys :: "tool list \<Rightarrow> error + (string \<times> tool) list" where
  "name_keys [] = Inr []"
| "name_keys (x # xs) =
     (case sort_name x of
        Inl e \<Rightarrow> Inl e
      | Inr k \<Rightarrow> (case name_keys xs of Inl e \<Rightarrow> Inl e | Inr kxs \<Rightarrow> Inr ((k, x) # kxs)))"

definition sort_by_name :: "tool list \<Rightarrow> error + tool list" where
  "sort_by_name xs =
     (case name_keys xs of Inl e \<Rightarrow> Inl e | Inr kxs \<Rightarrow> Inr (map snd (sort_key fst kxs)))"

section \<open>Discovery\<close>

text \<open>
  The inner loop over the items of one query: the candidate is appended, and only then is
  the bound \<open>len(candidates) >= max_results * 3\<close> tested.
\<close>

fun collect_items :: "env \<Rightarrow> int \<Rightarrow> string \<Rightarrow> item list \<Rightarrow> tool list \<Rightarrow> tool list" where
  "collect_items e max_results q [] candidates = candidates"
| "collect_items e max_results q (it # items) candidates =
     (let candidates' = candidates @ [build_candidate e q it]
      in if int (length candidates') \<ge> max_results * 3 then candidates'
         else collect_items e max_results q items candidates')"

text \<open>The outer loop over the queries; the bound is tested again after each query.\<close>

fun collect_queries :: "env \<Rightarrow> int \<Rightarrow> string list \<Rightarrow> tool list \<Rightarrow> error + tool list" where
  "collect_queries e max_results [] candidates = Inr candidates"
| "collect_queries e max_results (q # qs) candidates =
     (case search e q of
        Inl err \<Rightarrow> Inl err
      | Inr items \<Rightarrow>
          (let candidates' = collect_items e max_results q items candidates
           in if int (length candidates') \<ge> max_results * 3 then Inr candidates'
              else collect_queries e max_results qs candidates'))"

text \<open>
  The loop "Dedup by ToolName": \<open>c["ToolName"]\<close> raises \<open>KeyError\<close> on a record with no
  name; the bound \<open>len(uniq) >= max_results\<close> is tested after the append.
\<close>

fun dedup_loop :: "int \<Rightarrow> tool list \<Rightarrow> string set \<Rightarrow> tool list \<Rightarrow> error + tool list" where
  "dedup_loop max_results [] seen uniq = Inr uniq"
| "dedup_loop max_results (c # cs) seen uniq =
     (case ToolName c of
        None \<Rightarrow> Inl (KeyError (quoted ''ToolName''))
      | Some v \<Rightarrow>
          (case py_normalize_name v of
             Inl err \<Rightarrow> Inl err
           | Inr k \<Rightarrow>
               if k \<in> seen then dedup_loop max_results cs seen uniq
               else (let uniq' = uniq @ [c]
                     in if int (length uniq') \<ge> max_results then Inr uniq'
                        else dedup_loop max_results cs (insert k seen) uniq')))"

definition scout_github :: "env \<Rightarrow> int \<Rightarrow> error + tool list" where
  "scout_github e max_results =
     (case collect_queries e max_results build_queries [] of
        Inl err \<Rightarrow> Inl err
      | Inr candidates \<Rightarrow>
          (case dedup_loop max_results candidates {} [] of
             Inl err \<Rightarrow> Inl err
           | Inr uniq \<Rightarrow> sort_by_name uniq))"

section \<open>Catalog merger\<close>

text \<open>
  The dictionary \<open>idx\<close> is an association list in insertion order: assigning to a key
  that is present replaces its value in place, a new key goes to the end
  (\<open>AList.update\<close>), and \<open>idx.values()\<close> is the list of second components.

  \<open>seed_index\<close> is the dictionary comprehension over \<open>existing\<close>.
\<close>

fun seed_index :: "tool list \<Rightarrow> (string \<times> tool) list \<Rightarrow> error + (string \<times> tool) list" where
  "seed_index [] idx = Inr idx"
| "seed_index (t # ts) idx =
     (if truthy (get_ToolName t JNull)
      then (case py_normalize_name (get_ToolName t (JStr [])) of
              Inl err \<Rightarrow> Inl err
            | Inr k \<Rightarrow> seed_index ts (AList.update k t idx))
      else seed_index ts idx)"

fun merge_loop ::
  "tool list \<Rightarrow> (string \<times> tool) list \<Rightarrow> int \<Rightarrow> tool list \<Rightarrow>
     error + ((string \<times> tool) list \<times> int \<times> tool list)" where
  "merge_loop [] idx inserted inserted_items = Inr (idx, inserted, inserted_items)"
| "merge_loop (c # cs) idx inserted inserted_items =
     (case py_normalize_name (get_ToolName c (JStr [])) of
        Inl err \<Rightarrow> Inl err
      | Inr k \<Rightarrow>
          if k = [] \<or> k \<in> set (map fst idx) then merge_loop cs idx inserted inserted_items
          else merge_loop cs (AList.update k c idx) (inserted + 1) (inserted_items @ [c]))"

definition merge_tools :: "tool list \<Rightarrow> tool list \<Rightarrow> error + (tool list \<times> int \<times> tool list)" where
  "merge_tools existing new =
     (case seed_index existing [] of
        Inl err \<Rightarrow> Inl err
      | Inr idx0 \<Rightarrow>
          (case merge_loop new idx0 0 [] of
             Inl err \<Rightarrow> Inl err
           | Inr (idx, inserted, inserted_items) \<Rightarrow>
               (case sort_by_name (map snd idx) of
                  Inl err \<Rightarrow> Inl err
                | Inr merged \<Rightarrow> Inr (merged, inserted, inserted_items))))"

section \<open>Evidence validator and the run\<close>












section \<open>Definitions that follow the specification\<close>

text \<open>
  The Maturity score as the specification words it: a base from the star buckets, one more
  for an age of five years, one recency adjustment out of four exclusive cases, and the
  clamp to the range from 0 to 5.
\<close>

definition spec_star_base :: "int \<Rightarrow> int" where
  "spec_star_base stars =
     (if stars \<ge> 5000 then 5 else if stars \<ge> 1000 then 4 else if stars \<ge> 200 then 3
      else if stars \<ge> 50 then 2 else 1)"

definition spec_recency_adjustment :: "int \<Rightarrow> int" where
  "spec_recency_adjustment updated_days =
     (if updated_days > 365 then - 2 else if updated_days > 180 then - 1
      else if updated_days < 30 then 1 else 0)"

definition spec_maturity :: "int \<Rightarrow> real \<Rightarrow> int \<Rightarrow> int" where
  "spec_maturity stars age_years updated_days =
     max 0 (min 5 (spec_star_base stars + (if age_years \<ge> 5 then 1 else 0)
                   + spec_recency_adjustment updated_days))"

text \<open>The order of the adoption tiers: Hold, Assess, Trial, Adopt.\<close>

definition tier_rank :: "string \<Rightarrow> nat" where
  "tier_rank c =
     (if c = ''Adopt'' then 3 else if c = ''Trial'' then 2 else if c = ''Assess'' then 1 else 0)"

text \<open>
  The name of a record as a string (empty when the name is missing or not a string), its
  dedup key (the normalized name) and its sort key (the lowercased name).
\<close>

definition name_str :: "tool \<Rightarrow> string" where
  "name_str t = (case ToolName t of Some (JStr s) \<Rightarrow> s | _ \<Rightarrow> [])"

definition name_key :: "tool \<Rightarrow> string" where
  "name_key t = normalize_name (name_str t)"

definition lower_name :: "tool \<Rightarrow> string" where
  "lower_name t = py_lower (name_str t)"

text \<open>
  The invariants of a catalog document that the pipeline has written: every record has a
  name that is a non-empty string, no two records share a dedup key, and the records are
  in the order of their sort keys.
\<close>

definition named :: "tool \<Rightarrow> bool" where
  "named t = (case ToolName t of Some (JStr s) \<Rightarrow> s \<noteq> [] | _ \<Rightarrow> False)"

definition catalog_ok :: "tool list \<Rightarrow> bool" where
  "catalog_ok ts \<longleftrightarrow>
     list_all named ts \<and> distinct (map name_key ts) \<and> sorted (map lower_name ts)"

text \<open>A record with a name and a description; every other field is empty.\<close>

definition sample_tool :: "string \<Rightarrow> string \<Rightarrow> tool" where
  "sample_tool n u =
     \<lparr>ToolName = Some (JStr n), VendorOrganisation = None, ToolType = [], PrimaryUse = u,
      VModelPhases = [], AIInvolvement = [], Classification = [], EvidenceLinks = None,
      LastVerifiedDate = [], UpdateSignal = [], RiskFlags = [], Notes = [],
      Repo = \<lparr>repo_full_name = [], repo_url = [], repo_stars = 0, repo_forks = 0,
              repo_open_issues = 0, repo_pushed_at = [], repo_created_at = []\<rparr>,
      Scores = []\<rparr>"

text \<open>
  An item of the search provider with a name and nothing else, and an environment with a
  given search provider, a link checker that reaches every link and a clock that parses
  no timestamp.
\<close>

definition sample_item :: "string \<Rightarrow> item" where
  "sample_item n =
     \<lparr>it_name = Some n, it_full_name = None, it_html_url = None, it_homepage = None,
      it_description = None, it_created_at = None, it_pushed_at = None,
      it_stargazers_count = None, it_forks_count = None, it_open_issues_count = None,
      it_owner_login = None\<rparr>"

definition sample_env :: "(string \<Rightarrow> error + item list) \<Rightarrow> env" where
  "sample_env provider =
     \<lparr>search = provider, http_head_ok = (\<lambda>url. (True, ''200'')),
      delta_seconds = (\<lambda>stamp. None), delta_days = (\<lambda>stamp. None),
      today_iso = ''2024-01-01'', now_utc_iso = ''2024-01-01T00:00:00Z'',
      GITHUB_SHA = None\<rparr>"

text \<open>
  Deduplication by normalized name that keeps the first occurrence, as the specification
  words the batch-level dedup: a record is kept unless its key was seen before it.
\<close>

fun dedup_first :: "string set \<Rightarrow> tool list \<Rightarrow> tool list" where
  "dedup_first seen [] = []"
| "dedup_first seen (c # cs) =
     (if name_key c \<in> seen then dedup_first seen cs
      else c # dedup_first (insert (name_key c) seen) cs)"

text \<open>Every candidate that the queries would yield, in order, were no bound applied.\<close>

definition all_candidates :: "env \<Rightarrow> (string \<Rightarrow> item list) \<Rightarrow> string list \<Rightarrow> tool list" where
  "all_candidates e items qs = concat (map (\<lambda>q. map (build_candidate e q) (items q)) qs)"


section \<open>Auxiliary facts\<close>

lemma clamp_bounds: "0 \<le> clamp n 0 5 \<and> clamp n 0 5 \<le> 5"
  by (simp add: clamp_def)

text \<open>The two string tests decide what they are meant to decide: prefix and substring.\<close>

lemma starts_with_iff: "starts_with k t \<longleftrightarrow> (\<exists>s. t = k @ s)"
  by (induction k t rule: starts_with.induct) auto

lemma py_in_iff: "py_in k t \<longleftrightarrow> (\<exists>p s. t = p @ k @ s)"
proof (induction t)
  case Nil
  then show ?case by simp
next
  case (Cons c t)
  show ?case
  proof
    assume "py_in k (c # t)"
    then consider "starts_with k (c # t)" | "py_in k t" by auto
    then show "\<exists>p s. c # t = p @ k @ s"
    proof cases
      case 1
      then obtain s where "c # t = k @ s" using starts_with_iff by blast
      then have "c # t = [] @ k @ s" by simp
      then show ?thesis by blast
    next
      case 2
      then obtain p s where "t = p @ k @ s" using Cons.IH by blast
      then have "c # t = (c # p) @ k @ s" by simp
      then show ?thesis by blast
    qed
  next
    assume "\<exists>p s. c # t = p @ k @ s"
    then obtain p s where ps: "c # t = p @ k @ s" by blast
    show "py_in k (c # t)"
    proof (cases p)
      case Nil
      with ps have "starts_with k (c # t)" using starts_with_iff by auto
      then show ?thesis by simp
    next
      case (Cons a p')
      with ps have "t = p' @ k @ s" by simp
      then have "py_in k t" using Cons.IH by blast
      then show ?thesis by simp
    qed
  qed
qed

lemma any_in_iff: "any_in keys t \<longleftrightarrow> (\<exists>k\<in>set keys. \<exists>p s. t = p @ k @ s)"
  by (simp add: any_in_def list_ex_iff py_in_iff)

section \<open>Score bounds\<close>

lemma hits_to_score_bounds: "0 \<le> hits_to_score h \<and> hits_to_score h \<le> 5"
  by (simp add: hits_to_score_def)

lemma ai_value_cases: "ai_value a = 1 \<or> ai_value a = 2 \<or> ai_value a = 3 \<or> ai_value a = 5"
  by (simp add: ai_value_def)

lemma score_maturity_bounds: "0 \<le> score_maturity s a d \<and> score_maturity s a d \<le> 5"
  unfolding score_maturity_def Let_def by (rule clamp_bounds)

lemma score_community_bounds: "0 \<le> score_community s f i \<and> score_community s f i \<le> 5"
  unfolding score_community_def Let_def by (rule clamp_bounds)

lemma Scores_build_candidate:
  "Scores (build_candidate e q it) =
     (let name = str_or (it_name it) ''Unknown'';
          full_name = str_or (it_full_name it) name;
          desc = str_or (it_description it) [];
          created = str_or (it_created_at it) [];
          pushed = str_or (it_pushed_at it) [];
          stars = int_or0 (it_stargazers_count it);
          blob = full_name @ '' '' @ desc
      in [(''Maturity'', score_maturity stars
             (if created \<noteq> [] then years_since e created else 0)
             (if pushed \<noteq> [] then days_since e pushed else 99999)),
          (''Integration'', score_integration blob),
          (''EmbeddedFit'', score_embedded blob),
          (''AuditTraceability'', score_audit blob),
          (''AIValue'', ai_value (infer_ai_involvement blob)),
          (''TCO'', 5),
          (''CommunitySupport'', score_community stars (int_or0 (it_forks_count it))
             (int_or0 (it_open_issues_count it)))])"
  by (simp add: build_candidate_def Let_def)

text \<open>
  Claim C3. Each of the seven dimension scores is an integer between 0 and 5, for all
  inputs (negative counts included): the six scoring functions, and with them the seven
  entries of the score table of a candidate, whose keys are the seven dimensions and
  whose TCO entry is the constant 5. Maturity of no stars, age 0 and 99999 days without
  an update is 0.
\<close>

theorem score_bounds:
  "(0 \<le> score_maturity stars age_years updated_days \<and> score_maturity stars age_years updated_days \<le> 5)
   \<and> (0 \<le> score_community stars forks open_issues \<and> score_community stars forks open_issues \<le> 5)
   \<and> (0 \<le> score_embedded text \<and> score_embedded text \<le> 5)
   \<and> (0 \<le> score_integration text \<and> score_integration text \<le> 5)
   \<and> (0 \<le> score_audit text \<and> score_audit text \<le> 5)
   \<and> (0 \<le> ai_value ai \<and> ai_value ai \<le> 5)
   \<and> map fst (Scores (build_candidate e q it)) = DIMENSIONS
   \<and> list_all (\<lambda>v. 0 \<le> v \<and> v \<le> 5) (map snd (Scores (build_candidate e q it)))
   \<and> score_maturity 0 0 99999 = 0"
proof -
  have tco: "map fst (Scores (build_candidate e q it)) = DIMENSIONS"
    by (simp add: Scores_build_candidate Let_def DIMENSIONS_def)
  have ai: "0 \<le> ai_value a \<and> ai_value a \<le> 5" for a
    using ai_value_cases [of a] by auto
  have all: "list_all (\<lambda>v. 0 \<le> v \<and> v \<le> 5) (map snd (Scores (build_candidate e q it)))"
    by (simp add: Scores_build_candidate Let_def score_maturity_bounds score_community_bounds
        score_embedded_def score_integration_def score_audit_def hits_to_score_bounds ai)
  have ex: "score_maturity 0 0 99999 = 0"
    by (simp add: score_maturity_def clamp_def)
  show ?thesis
    using tco all ex ai [of ai] score_maturity_bounds score_community_bounds
    by (simp add: score_embedded_def score_integration_def score_audit_def hits_to_score_bounds)
qed

section \<open>Maturity formula\<close>

text \<open>
  Claim C4. The Maturity score is the specification's formula: the star-bucket base, plus
  one for an age of at least five years, plus one recency adjustment, clamped to the range
  from 0 to 5. The recency adjustment takes one of four values, chosen by the first test
  that holds: minus 2 above 365 days, else minus 1 above 180 days, else plus 1 below 30
  days, else nothing.
\<close>

theorem score_maturity_formula:
  "score_maturity stars age_years updated_days = spec_maturity stars age_years updated_days
   \<and> spec_recency_adjustment updated_days \<in> {- 2, - 1, 1, 0}
   \<and> (spec_recency_adjustment updated_days = - 2 \<longleftrightarrow> updated_days > 365)
   \<and> (spec_recency_adjustment updated_days = - 1 \<longleftrightarrow> updated_days > 180 \<and> updated_days \<le> 365)
   \<and> (spec_recency_adjustment updated_days = 1 \<longleftrightarrow> updated_days < 30)"
  by (simp add: score_maturity_def spec_maturity_def spec_star_base_def
      spec_recency_adjustment_def clamp_def Let_def)

section \<open>Tier classifier\<close>

lemma get_score_upd_same: "get_score (s(k \<mapsto> v)) k = v"
  by (simp add: get_score_def)

lemma get_score_upd_AIValue: "get_score (s(''Maturity'' \<mapsto> v)) ''AIValue'' = get_score s ''AIValue''"
  by (simp add: get_score_def)

lemma classify_rules:
  "classify s =
      (if get_score s ''Maturity'' \<ge> 4 \<and> get_score s ''AIValue'' \<ge> 3 then ''Adopt''
       else if get_score s ''Maturity'' \<ge> 3 \<and> get_score s ''AIValue'' \<ge> 3 then ''Trial''
       else if get_score s ''Maturity'' \<ge> 2 then ''Assess'' else ''Hold'')"
  by (simp add: classify_def Let_def)

lemma classify_upd:
  "get_score s ''AIValue'' \<ge> 3 \<Longrightarrow>
      classify (s(''Maturity'' \<mapsto> m)) =
        (if m \<ge> 4 then ''Adopt'' else if m \<ge> 3 then ''Trial''
         else if m \<ge> 2 then ''Assess'' else ''Hold'')"
  by (simp add: classify_rules get_score_upd_same get_score_upd_AIValue)

lemma rank_upd:
  "get_score s ''AIValue'' \<ge> 3 \<Longrightarrow>
      tier_rank (classify (s(''Maturity'' \<mapsto> m))) =
        (if m \<ge> 4 then 3 else if m \<ge> 3 then 2 else if m \<ge> 2 then 1 else 0)"
  by (simp add: classify_upd tier_rank_def)

text \<open>
  Claim C5. The tier rules are tried from the top and the first that matches decides:
  Adopt, else Trial, else Assess, else Hold. With an AIValue of at least 3 held fixed, a
  Maturity of 2, 3 and 4 gives Assess, Trial and Adopt; the tier never falls when Maturity
  rises, and rises by at most one step when Maturity rises by one.
\<close>

theorem classify_first_match:
  "(get_score s ''Maturity'' \<ge> 4 \<and> get_score s ''AIValue'' \<ge> 3 \<longrightarrow> classify s = ''Adopt'')
   \<and> (\<not> (get_score s ''Maturity'' \<ge> 4 \<and> get_score s ''AIValue'' \<ge> 3)
        \<and> get_score s ''Maturity'' \<ge> 3 \<and> get_score s ''AIValue'' \<ge> 3 \<longrightarrow> classify s = ''Trial'')
   \<and> (\<not> (get_score s ''Maturity'' \<ge> 3 \<and> get_score s ''AIValue'' \<ge> 3)
        \<and> get_score s ''Maturity'' \<ge> 2 \<longrightarrow> classify s = ''Assess'')
   \<and> (get_score s ''Maturity'' < 2 \<longrightarrow> classify s = ''Hold'')
   \<and> (get_score s ''AIValue'' \<ge> 3 \<longrightarrow>
        classify (s(''Maturity'' \<mapsto> 2)) = ''Assess''
        \<and> classify (s(''Maturity'' \<mapsto> 3)) = ''Trial''
        \<and> classify (s(''Maturity'' \<mapsto> 4)) = ''Adopt''
        \<and> (\<forall>m m'. m \<le> m' \<longrightarrow>
              tier_rank (classify (s(''Maturity'' \<mapsto> m))) \<le> tier_rank (classify (s(''Maturity'' \<mapsto> m'))))
        \<and> (\<forall>m. tier_rank (classify (s(''Maturity'' \<mapsto> m + 1)))
                \<le> tier_rank (classify (s(''Maturity'' \<mapsto> m))) + 1))"
proof -
  have r1: "get_score s ''Maturity'' \<ge> 4 \<and> get_score s ''AIValue'' \<ge> 3 \<longrightarrow> classify s = ''Adopt''"
    by (simp add: classify_rules)
  have r2: "\<not> (get_score s ''Maturity'' \<ge> 4 \<and> get_score s ''AIValue'' \<ge> 3)
        \<and> get_score s ''Maturity'' \<ge> 3 \<and> get_score s ''AIValue'' \<ge> 3 \<longrightarrow> classify s = ''Trial''"
    by (simp add: classify_rules)
  have r3: "\<not> (get_score s ''Maturity'' \<ge> 3 \<and> get_score s ''AIValue'' \<ge> 3)
        \<and> get_score s ''Maturity'' \<ge> 2 \<longrightarrow> classify s = ''Assess''"
    unfolding classify_rules by auto
  have r4: "get_score s ''Maturity'' < 2 \<longrightarrow> classify s = ''Hold''"
    by (simp add: classify_rules)
  have r5: "get_score s ''AIValue'' \<ge> 3 \<longrightarrow>
        classify (s(''Maturity'' \<mapsto> 2)) = ''Assess''
        \<and> classify (s(''Maturity'' \<mapsto> 3)) = ''Trial''
        \<and> classify (s(''Maturity'' \<mapsto> 4)) = ''Adopt''"
    by (simp add: classify_upd)
  have r6: "get_score s ''AIValue'' \<ge> 3 \<longrightarrow> (\<forall>m m'. m \<le> m' \<longrightarrow>
              tier_rank (classify (s(''Maturity'' \<mapsto> m))) \<le> tier_rank (classify (s(''Maturity'' \<mapsto> m'))))"
    by (simp add: rank_upd)
  have r7: "get_score s ''AIValue'' \<ge> 3 \<longrightarrow> (\<forall>m. tier_rank (classify (s(''Maturity'' \<mapsto> m + 1)))
                \<le> tier_rank (classify (s(''Maturity'' \<mapsto> m))) + 1)"
    by (simp add: rank_upd)
  from r1 r2 r3 r4 r5 r6 r7 show ?thesis by blast
qed

theorem classify_first_match_witness:
  "get_score [''AIValue'' \<mapsto> 3] ''AIValue'' \<ge> 3
   \<and> classify ([''AIValue'' \<mapsto> 3](''Maturity'' \<mapsto> 2)) = ''Assess''
   \<and> classify ([''AIValue'' \<mapsto> 3](''Maturity'' \<mapsto> 3)) = ''Trial''
   \<and> classify ([''AIValue'' \<mapsto> 3](''Maturity'' \<mapsto> 4)) = ''Adopt''"
proof -
  have a: "get_score [''AIValue'' \<mapsto> 3] ''AIValue'' \<ge> 3"
    by (simp add: get_score_def)
  from a classify_first_match [of "[''AIValue'' \<mapsto> 3]"] show ?thesis by blast
qed

section \<open>Text classifier\<close>

text \<open>
  Claim C7. The core keywords are tested before the assisted ones: a text whose lowercased
  form contains a core keyword is "core", whatever else it contains; one that contains an
  assisted keyword and no core keyword is "assisted"; any other text is "none".
\<close>

theorem ai_involvement_precedence:
  "((\<exists>k\<in>set AI_HINTS_CORE. \<exists>p s. py_lower text = p @ k @ s)
      \<longrightarrow> infer_ai_involvement text = ''core'')
   \<and> (\<not> (\<exists>k\<in>set AI_HINTS_CORE. \<exists>p s. py_lower text = p @ k @ s)
        \<and> (\<exists>k\<in>set AI_HINTS_ASSISTED. \<exists>p s. py_lower text = p @ k @ s)
      \<longrightarrow> infer_ai_involvement text = ''assisted'')
   \<and> (\<not> (\<exists>k\<in>set AI_HINTS_CORE. \<exists>p s. py_lower text = p @ k @ s)
        \<and> \<not> (\<exists>k\<in>set AI_HINTS_ASSISTED. \<exists>p s. py_lower text = p @ k @ s)
      \<longrightarrow> infer_ai_involvement text = ''none'')"
  unfolding infer_ai_involvement_def Let_def any_in_iff by simp

theorem ai_involvement_precedence_witness:
  "any_in AI_HINTS_CORE (py_lower ''LLM agent for Training'')
   \<and> any_in AI_HINTS_ASSISTED (py_lower ''LLM agent for Training'')
   \<and> infer_ai_involvement ''LLM agent for Training'' = ''core''
   \<and> infer_ai_involvement ''Copilot plugin'' = ''assisted''
   \<and> infer_ai_involvement ''plain linter'' = ''none''"
proof -
  have c1: "any_in AI_HINTS_CORE (py_lower ''LLM agent for Training'')" by code_simp
  have a1: "any_in AI_HINTS_ASSISTED (py_lower ''LLM agent for Training'')" by code_simp
  have c2: "\<not> any_in AI_HINTS_CORE (py_lower ''Copilot plugin'')" by code_simp
  have a2: "any_in AI_HINTS_ASSISTED (py_lower ''Copilot plugin'')" by code_simp
  have c3: "\<not> any_in AI_HINTS_CORE (py_lower ''plain linter'')" by code_simp
  have a3: "\<not> any_in AI_HINTS_ASSISTED (py_lower ''plain linter'')" by code_simp
  show ?thesis
    using c1 a1 c2 a2 c3 a3
      ai_involvement_precedence [of "''LLM agent for Training''"]
      ai_involvement_precedence [of "''Copilot plugin''"]
      ai_involvement_precedence [of "''plain linter''"]
    unfolding any_in_iff by blast
qed

lemma set_matching_phases:
  "set [phase. (phase, keys) \<leftarrow> tbl, any_in keys t] =
     {phase. \<exists>keys. (phase, keys) \<in> set tbl \<and> any_in keys t}"
  by (induction tbl) auto

text \<open>
  Claim C6. Phase inference never returns an empty list. When some keyword of some phase
  is a substring of the lowercased text, a phase label is in the result exactly when one
  of its own keywords is such a substring; when no keyword of any phase is, the result is
  the list of the one label "Data/AI Lifecycle".
\<close>

theorem phases_never_empty:
  "infer_vmodel_phases text \<noteq> []
   \<and> ((\<exists>phase keys. (phase, keys) \<in> set PHASE_KEYWORDS
          \<and> (\<exists>k\<in>set keys. \<exists>p s. py_lower text = p @ k @ s))
        \<longrightarrow> (\<forall>phase. phase \<in> set (infer_vmodel_phases text) \<longleftrightarrow>
               (\<exists>keys. (phase, keys) \<in> set PHASE_KEYWORDS
                  \<and> (\<exists>k\<in>set keys. \<exists>p s. py_lower text = p @ k @ s))))
   \<and> (\<not> (\<exists>phase keys. (phase, keys) \<in> set PHASE_KEYWORDS
          \<and> (\<exists>k\<in>set keys. \<exists>p s. py_lower text = p @ k @ s))
        \<longrightarrow> infer_vmodel_phases text = [''Data/AI Lifecycle''])"
proof -
  define ph where "ph = [phase. (phase, keys) \<leftarrow> PHASE_KEYWORDS, any_in keys (py_lower text)]"
  have res: "infer_vmodel_phases text = (if ph = [] then [''Data/AI Lifecycle''] else ph)"
    by (simp add: infer_vmodel_phases_def ph_def Let_def)
  have mem: "set ph = {phase. \<exists>keys. (phase, keys) \<in> set PHASE_KEYWORDS
                 \<and> (\<exists>k\<in>set keys. \<exists>p s. py_lower text = p @ k @ s)}"
  proof -
    have "set ph = {phase. \<exists>keys. (phase, keys) \<in> set PHASE_KEYWORDS
                 \<and> any_in keys (py_lower text)}"
      unfolding ph_def by (rule set_matching_phases)
    then show ?thesis unfolding any_in_iff .
  qed
  have emp: "ph = [] \<longleftrightarrow> \<not> (\<exists>phase keys. (phase, keys) \<in> set PHASE_KEYWORDS
          \<and> (\<exists>k\<in>set keys. \<exists>p s. py_lower text = p @ k @ s))"
  proof -
    have "ph = [] \<longleftrightarrow> set ph = {}" by simp
    also have "\<dots> \<longleftrightarrow> \<not> (\<exists>phase keys. (phase, keys) \<in> set PHASE_KEYWORDS
          \<and> (\<exists>k\<in>set keys. \<exists>p s. py_lower text = p @ k @ s))"
      unfolding mem by blast
    finally show ?thesis .
  qed
  have ne: "infer_vmodel_phases text \<noteq> []"
    by (simp add: res)
  have hit: "(\<exists>phase keys. (phase, keys) \<in> set PHASE_KEYWORDS
          \<and> (\<exists>k\<in>set keys. \<exists>p s. py_lower text = p @ k @ s))
        \<longrightarrow> (\<forall>phase. phase \<in> set (infer_vmodel_phases text) \<longleftrightarrow>
               (\<exists>keys. (phase, keys) \<in> set PHASE_KEYWORDS
                  \<and> (\<exists>k\<in>set keys. \<exists>p s. py_lower text = p @ k @ s)))"
  proof
    assume "\<exists>phase keys. (phase, keys) \<in> set PHASE_KEYWORDS
          \<and> (\<exists>k\<in>set keys. \<exists>p s. py_lower text = p @ k @ s)"
    then have "ph \<noteq> []" using emp by blast
    then have "infer_vmodel_phases text = ph" by (simp add: res)
    then show "\<forall>phase. phase \<in> set (infer_vmodel_phases text) \<longleftrightarrow>
               (\<exists>keys. (phase, keys) \<in> set PHASE_KEYWORDS
                  \<and> (\<exists>k\<in>set keys. \<exists>p s. py_lower text = p @ k @ s))"
      using mem by simp
  qed
  have miss: "\<not> (\<exists>phase keys. (phase, keys) \<in> set PHASE_KEYWORDS
          \<and> (\<exists>k\<in>set keys. \<exists>p s. py_lower text = p @ k @ s))
        \<longrightarrow> infer_vmodel_phases text = [''Data/AI Lifecycle'']"
    using emp res by simp
  from ne hit miss show ?thesis by blast
qed

theorem phases_never_empty_witness:
  "infer_vmodel_phases ''ACME Robotics Gazebo Simulation''
      = [''Architektur/Design'', ''System Integration & Validierung'']
   \<and> (''Architektur/Design'', [''mbse'', ''sysml'', ''model-based'', ''architecture'', ''simulation''])
        \<in> set PHASE_KEYWORDS
   \<and> py_in ''simulation'' (py_lower ''ACME Robotics Gazebo Simulation'')
   \<and> ''Architektur/Design'' \<in> set (infer_vmodel_phases ''ACME Robotics Gazebo Simulation'')
   \<and> \<not> list_ex (\<lambda>(phase, keys). any_in keys (py_lower ''zzz'')) PHASE_KEYWORDS
   \<and> infer_vmodel_phases ''zzz'' = [''Data/AI Lifecycle'']"
proof -
  have v: "infer_vmodel_phases ''ACME Robotics Gazebo Simulation''
      = [''Architektur/Design'', ''System Integration & Validierung'']"
    by code_simp
  have k: "(''Architektur/Design'', [''mbse'', ''sysml'', ''model-based'', ''architecture'', ''simulation''])
        \<in> set PHASE_KEYWORDS"
    by (simp add: PHASE_KEYWORDS_def)
  have i: "py_in ''simulation'' (py_lower ''ACME Robotics Gazebo Simulation'')"
    by code_simp
  have n: "\<not> list_ex (\<lambda>(phase, keys). any_in keys (py_lower ''zzz'')) PHASE_KEYWORDS"
    by code_simp
  have n': "\<not> (\<exists>phase keys. (phase, keys) \<in> set PHASE_KEYWORDS
          \<and> (\<exists>k\<in>set keys. \<exists>p s. py_lower ''zzz'' = p @ k @ s))"
    using n unfolding list_ex_iff any_in_iff by blast
  have h: "\<exists>phase keys. (phase, keys) \<in> set PHASE_KEYWORDS
          \<and> (\<exists>k\<in>set keys. \<exists>p s. py_lower ''ACME Robotics Gazebo Simulation'' = p @ k @ s)"
  proof -
    have ks: "''simulation'' \<in> set [''mbse'', ''sysml'', ''model-based'', ''architecture'', ''simulation'']"
      by simp
    from k ks i [unfolded py_in_iff] show ?thesis by blast
  qed
  have m: "''Architektur/Design'' \<in> set (infer_vmodel_phases ''ACME Robotics Gazebo Simulation'')"
  proof -
    have ks: "''simulation'' \<in> set [''mbse'', ''sysml'', ''model-based'', ''architecture'', ''simulation'']"
      by simp
    from h k ks i [unfolded py_in_iff]
      phases_never_empty [of "''ACME Robotics Gazebo Simulation''"]
    show ?thesis by blast
  qed
  have f: "infer_vmodel_phases ''zzz'' = [''Data/AI Lifecycle'']"
    using n' phases_never_empty [of "''zzz''"] by blast
  from v k i m n f show ?thesis by blast
qed

section \<open>Names, keys and sorting\<close>

lemma update_fresh: "k \<notin> fst ` set al \<Longrightarrow> AList.update k v al = al @ [(k, v)]"
  by (induction al) auto

lemma update_other_mem:
  "k \<noteq> k' \<Longrightarrow> (k, t) \<in> set (AList.update k' v al) \<longleftrightarrow> (k, t) \<in> set al"
  by (induction al) auto

lemma update_same_mem: "(k, v) \<in> set (AList.update k v al)"
  by (induction al) auto

lemma update_values_subset: "snd ` set (AList.update k v al) \<subseteq> insert v (snd ` set al)"
  by (induction al) auto

lemma named_facts:
  "named t \<Longrightarrow> truthy (get_ToolName t JNull)
     \<and> py_normalize_name (get_ToolName t (JStr [])) = Inr (name_key t)
     \<and> sort_name t = Inr (lower_name t)"
  by (auto simp: named_def get_ToolName_def py_normalize_name_def name_key_def name_str_def
      sort_name_def lower_name_def Let_def split: option.splits jval.splits)

lemma normalize_ok_key:
  "py_normalize_name (get_ToolName t d) = Inr k \<Longrightarrow> d = JStr [] \<or> d = JNull \<Longrightarrow> k = name_key t"
  by (auto simp: get_ToolName_def py_normalize_name_def name_key_def name_str_def
      split: option.splits jval.splits)

lemma normalize_ok_str:
  "py_normalize_name (get_ToolName t (JStr [])) = Inr k \<Longrightarrow> k \<noteq> [] \<Longrightarrow> named t"
  by (auto simp: get_ToolName_def py_normalize_name_def named_def normalize_name_def
      py_strip_def py_lower_def split: option.splits jval.splits)

lemma seed_truthy_named:
  "truthy (get_ToolName t JNull) \<Longrightarrow> py_normalize_name (get_ToolName t (JStr [])) = Inr k \<Longrightarrow> named t"
  by (auto simp: get_ToolName_def py_normalize_name_def named_def
      split: option.splits jval.splits)

lemma sort_name_value: "sort_name x = Inr k \<Longrightarrow> k = lower_name x"
  by (auto simp: sort_name_def lower_name_def name_str_def get_ToolName_def Let_def py_lower_def
      split: option.splits jval.splits if_splits)

lemma name_keys_value:
  "name_keys xs = Inr kxs \<Longrightarrow> kxs = map (\<lambda>x. (lower_name x, x)) xs"
  by (induction xs arbitrary: kxs) (auto split: sum.splits dest: sort_name_value)

lemma name_keys_named:
  "list_all named xs \<Longrightarrow> name_keys xs = Inr (map (\<lambda>x. (lower_name x, x)) xs)"
  by (induction xs) (auto simp: named_facts)

lemma insort_decorated:
  "insort_key fst (f x, x) (map (\<lambda>x. (f x, x)) ys) = map (\<lambda>x. (f x, x)) (insort_key f x ys)"
  by (induction ys) auto

lemma sort_decorated: "map snd (sort_key fst (map (\<lambda>x. (f x, x)) xs)) = sort_key f xs"
proof -
  have "sort_key fst (map (\<lambda>x. (f x, x)) xs) = map (\<lambda>x. (f x, x)) (sort_key f xs)"
    by (induction xs) (auto simp: insort_decorated)
  then show ?thesis by (simp add: comp_def)
qed

lemma sort_by_name_value: "sort_by_name xs = Inr r \<Longrightarrow> r = sort_key lower_name xs"
  by (auto simp: sort_by_name_def sort_decorated split: sum.splits dest!: name_keys_value)

lemma sort_by_name_named: "list_all named xs \<Longrightarrow> sort_by_name xs = Inr (sort_key lower_name xs)"
  by (simp add: sort_by_name_def name_keys_named sort_decorated)

section \<open>Catalog merger\<close>

text \<open>
  The invariant of the index: its keys are distinct, and every value is a record with a
  non-empty string name that is stored under its own dedup key.
\<close>

lemma seed_index_append:
  "seed_index (xs @ ys) idx =
     (case seed_index xs idx of Inl e \<Rightarrow> Inl e | Inr i \<Rightarrow> seed_index ys i)"
  by (induction xs arbitrary: idx) (auto split: sum.splits)

lemma seed_index_inv:
  "seed_index ts idx = Inr idx' \<Longrightarrow>
   distinct (map fst idx) \<Longrightarrow> \<forall>(k, v)\<in>set idx. named v \<and> k = name_key v \<Longrightarrow>
   distinct (map fst idx') \<and> (\<forall>(k, v)\<in>set idx'. named v \<and> k = name_key v)"
proof (induction ts arbitrary: idx)
  case Nil
  then show ?case by simp
next
  case (Cons t ts)
  show ?case
  proof (cases "truthy (get_ToolName t JNull)")
    case False
    with Cons.prems have "seed_index ts idx = Inr idx'" by simp
    from Cons.IH [OF this Cons.prems(2,3)] show ?thesis .
  next
    case True
    with Cons.prems(1) obtain k where
      k: "py_normalize_name (get_ToolName t (JStr [])) = Inr k"
      and rest: "seed_index ts (AList.update k t idx) = Inr idx'"
      by (auto split: sum.splits)
    have nt: "named t" using True k by (rule seed_truthy_named)
    have kk: "k = name_key t" using k by (rule normalize_ok_key) simp
    have d: "distinct (map fst (AList.update k t idx))"
      using Cons.prems(2) by (simp add: distinct_update)
    have v: "\<forall>(k', v)\<in>set (AList.update k t idx). named v \<and> k' = name_key v"
    proof (clarify)
      fix k' v assume m: "(k', v) \<in> set (AList.update k t idx)"
      show "named v \<and> k' = name_key v"
      proof (cases "k' = k")
        case True
        have "map_of (AList.update k t idx) k = Some t" by (simp add: update_conv')
        moreover have "map_of (AList.update k t idx) k = Some v"
          using m d True by simp
        ultimately have "v = t" by simp
        with nt kk True show ?thesis by simp
      next
        case False
        with m have "(k', v) \<in> set idx" by (simp add: update_other_mem)
        with Cons.prems(3) show ?thesis by auto
      qed
    qed
    from Cons.IH [OF rest d v] show ?thesis .
  qed
qed

lemma seed_index_keys_mono:
  "seed_index ts idx = Inr idx' \<Longrightarrow> fst ` set idx \<subseteq> fst ` set idx'"
proof (induction ts arbitrary: idx)
  case Nil
  then show ?case by simp
next
  case (Cons t ts)
  show ?case
  proof (cases "truthy (get_ToolName t JNull)")
    case False
    with Cons show ?thesis by simp
  next
    case True
    with Cons.prems obtain k where
      rest: "seed_index ts (AList.update k t idx) = Inr idx'"
      by (auto split: sum.splits)
    from Cons.IH [OF rest] show ?thesis by (auto simp: dom_update)
  qed
qed

lemma seed_index_has_key:
  "seed_index ts idx = Inr idx' \<Longrightarrow> t \<in> set ts \<Longrightarrow> named t \<Longrightarrow> name_key t \<in> fst ` set idx'"
proof (induction ts arbitrary: idx)
  case Nil
  then show ?case by simp
next
  case (Cons u ts)
  show ?case
  proof (cases "t = u")
    case True
    with Cons.prems(1,3) have rest: "seed_index ts (AList.update (name_key t) t idx) = Inr idx'"
      by (simp add: named_facts)
    have "name_key t \<in> fst ` set (AList.update (name_key t) t idx)"
      by (simp add: dom_update)
    with seed_index_keys_mono [OF rest] show ?thesis by blast
  next
    case False
    with Cons.prems(2) have mem: "t \<in> set ts" by simp
    show ?thesis
    proof (cases "truthy (get_ToolName u JNull)")
      case False
      with Cons.prems(1) have "seed_index ts idx = Inr idx'" by simp
      from Cons.IH [OF this mem Cons.prems(3)] show ?thesis .
    next
      case True
      with Cons.prems(1) obtain k where
        rest: "seed_index ts (AList.update k u idx) = Inr idx'"
        by (auto split: sum.splits)
      from Cons.IH [OF rest mem Cons.prems(3)] show ?thesis .
    qed
  qed
qed

lemma seed_index_keeps:
  "seed_index ts idx = Inr idx' \<Longrightarrow> (k, t) \<in> set idx \<Longrightarrow> \<forall>u\<in>set ts. name_key u \<noteq> k \<Longrightarrow>
   (k, t) \<in> set idx'"
proof (induction ts arbitrary: idx)
  case Nil
  then show ?case by simp
next
  case (Cons u ts)
  show ?case
  proof (cases "truthy (get_ToolName u JNull)")
    case False
    with Cons.prems(1) have "seed_index ts idx = Inr idx'" by simp
    from Cons.IH [OF this Cons.prems(2)] Cons.prems(3) show ?thesis by simp
  next
    case True
    with Cons.prems(1) obtain k' where
      k': "py_normalize_name (get_ToolName u (JStr [])) = Inr k'"
      and rest: "seed_index ts (AList.update k' u idx) = Inr idx'"
      by (auto split: sum.splits)
    have "k' = name_key u" using k' by (rule normalize_ok_key) simp
    with Cons.prems(3) have "k \<noteq> k'" by auto
    with Cons.prems(2) have "(k, t) \<in> set (AList.update k' u idx)"
      by (simp add: update_other_mem)
    from Cons.IH [OF rest this] Cons.prems(3) show ?thesis by simp
  qed
qed

lemma seed_index_values:
  "seed_index ts idx = Inr idx' \<Longrightarrow> snd ` set idx' \<subseteq> snd ` set idx \<union> set ts"
proof (induction ts arbitrary: idx)
  case Nil
  then show ?case by simp
next
  case (Cons u ts)
  show ?case
  proof (cases "truthy (get_ToolName u JNull)")
    case False
    with Cons.prems(1) have "seed_index ts idx = Inr idx'" by simp
    from Cons.IH [OF this] show ?thesis by auto
  next
    case True
    with Cons.prems(1) obtain k' where
      rest: "seed_index ts (AList.update k' u idx) = Inr idx'"
      by (auto split: sum.splits)
    from Cons.IH [OF rest] update_values_subset [of k' u idx] show ?thesis by auto
  qed
qed

lemma seed_index_ok:
  "list_all named ts \<Longrightarrow> distinct (map fst idx @ map name_key ts) \<Longrightarrow>
   seed_index ts idx = Inr (idx @ map (\<lambda>t. (name_key t, t)) ts)"
proof (induction ts arbitrary: idx)
  case Nil
  then show ?case by simp
next
  case (Cons t ts)
  from Cons.prems have nt: "named t" and rest: "list_all named ts" by simp_all
  from Cons.prems(2) have fresh: "name_key t \<notin> fst ` set idx" by auto
  have upd: "AList.update (name_key t) t idx = idx @ [(name_key t, t)]"
    using fresh by (rule update_fresh)
  from Cons.prems(2) have d: "distinct (map fst (idx @ [(name_key t, t)]) @ map name_key ts)"
    by auto
  from Cons.IH [OF rest d] show ?case
    by (simp add: named_facts [OF nt] upd)
qed

lemma merge_loop_skip:
  "\<forall>c\<in>set new. \<exists>k. py_normalize_name (get_ToolName c (JStr [])) = Inr k
       \<and> (k = [] \<or> k \<in> fst ` set idx) \<Longrightarrow>
   merge_loop new idx inserted items = Inr (idx, inserted, items)"
proof (induction new)
  case Nil
  then show ?case by simp
next
  case (Cons c cs)
  from Cons.prems obtain k where
    k: "py_normalize_name (get_ToolName c (JStr [])) = Inr k"
    and skip: "k = [] \<or> k \<in> fst ` set idx"
    by auto
  from Cons.prems have "merge_loop cs idx inserted items = Inr (idx, inserted, items)"
    by (intro Cons.IH) simp
  with k skip show ?case by simp
qed

lemma merge_loop_inv:
  "merge_loop new idx inserted items = Inr (idx', inserted', items') \<Longrightarrow>
   distinct (map fst idx) \<Longrightarrow> \<forall>(k, v)\<in>set idx. named v \<and> k = name_key v \<Longrightarrow>
   distinct (map fst idx') \<and> (\<forall>(k, v)\<in>set idx'. named v \<and> k = name_key v)"
proof (induction new arbitrary: idx inserted items)
  case Nil
  then show ?case by simp
next
  case (Cons c cs)
  from Cons.prems(1) obtain k where
    k: "py_normalize_name (get_ToolName c (JStr [])) = Inr k"
    by (auto split: sum.splits)
  show ?case
  proof (cases "k = [] \<or> k \<in> set (map fst idx)")
    case True
    with Cons.prems(1) k have "merge_loop cs idx inserted items = Inr (idx', inserted', items')"
      by simp
    from Cons.IH [OF this Cons.prems(2,3)] show ?thesis .
  next
    case False
    with Cons.prems(1) k have rest:
      "merge_loop cs (AList.update k c idx) (inserted + 1) (items @ [c]) = Inr (idx', inserted', items')"
      by simp
    from False have fresh: "k \<notin> fst ` set idx" by simp
    have upd: "AList.update k c idx = idx @ [(k, c)]" using fresh by (rule update_fresh)
    have nc: "named c" using k False by (auto intro: normalize_ok_str)
    have kk: "k = name_key c" using k by (rule normalize_ok_key) simp
    have d: "distinct (map fst (AList.update k c idx))"
      using Cons.prems(2) by (simp add: distinct_update)
    have v: "\<forall>(k', v)\<in>set (AList.update k c idx). named v \<and> k' = name_key v"
      unfolding upd using Cons.prems(3) nc kk by auto
    from Cons.IH [OF rest d v] show ?thesis .
  qed
qed

lemma merge_tools_result:
  "merge_tools existing new = Inr (merged, ins, items) \<Longrightarrow>
   \<exists>idx0 idx. seed_index existing [] = Inr idx0 \<and> merge_loop new idx0 0 [] = Inr (idx, ins, items)
     \<and> merged = sort_key lower_name (map snd idx)"
  by (auto simp: merge_tools_def split: sum.splits dest: sort_by_name_value)

lemma distinct_map_sort_key:
  "distinct (map f (sort_key g xs)) \<longleftrightarrow> distinct (map f xs)"
  by (simp add: distinct_map)

lemma index_keys: "\<forall>(k, v)\<in>set idx. named v \<and> k = name_key v \<Longrightarrow> map name_key (map snd idx) = map fst idx"
  by (induction idx) auto

lemma merge_tools_distinct_keys:
  assumes "merge_tools existing new = Inr (merged, ins, items)"
  shows "distinct (map name_key merged)"
proof -
  from merge_tools_result [OF assms] obtain idx0 idx where
    s: "seed_index existing [] = Inr idx0"
    and m: "merge_loop new idx0 0 [] = Inr (idx, ins, items)"
    and r: "merged = sort_key lower_name (map snd idx)"
    by blast
  from seed_index_inv [OF s] have i0: "distinct (map fst idx0)"
      "\<forall>(k, v)\<in>set idx0. named v \<and> k = name_key v" by simp_all
  from merge_loop_inv [OF m i0] have i: "distinct (map fst idx)"
      "\<forall>(k, v)\<in>set idx. named v \<and> k = name_key v" by simp_all
  from i have "distinct (map name_key (map snd idx))" by (simp only: index_keys)
  then show ?thesis unfolding r by (simp only: distinct_map_sort_key)
qed

lemma merge_empty_counts:
  "merge_tools existing [] = Inr (merged, ins, items) \<Longrightarrow> ins = 0 \<and> items = []"
  by (auto simp: merge_tools_def split: sum.splits)

lemma merge_catalog_ok:
  assumes "catalog_ok existing"
  shows "merge_tools existing [] = Inr (existing, 0, [])"
proof -
  from assms have n: "list_all named existing" and d: "distinct (map name_key existing)"
    and so: "sorted (map lower_name existing)"
    by (simp_all add: catalog_ok_def)
  have s: "seed_index existing [] = Inr (map (\<lambda>t. (name_key t, t)) existing)"
    using seed_index_ok [OF n, of "[]"] d by simp
  have v: "map snd (map (\<lambda>t. (name_key t, t)) existing) = existing"
    by (simp add: comp_def)
  have "sort_by_name existing = Inr (sort_key lower_name existing)"
    using n by (rule sort_by_name_named)
  also have "sort_key lower_name existing = existing"
    using so by (rule sort_key_id_if_sorted)
  finally have "sort_by_name existing = Inr existing" .
  then show ?thesis unfolding merge_tools_def s by (simp add: comp_def)
qed

lemma merge_unchanged_ok:
  assumes r: "merge_tools existing [] = Inr (existing, ins, items)"
  shows "catalog_ok existing"
proof -
  from merge_tools_result [OF r] obtain idx0 where
    s: "seed_index existing [] = Inr idx0" and m: "existing = sort_key lower_name (map snd idx0)"
    by auto
  from seed_index_inv [OF s] have v: "\<forall>(k, v)\<in>set idx0. named v \<and> k = name_key v" by simp
  have "set existing = snd ` set idx0" by (subst m) simp
  with v have n: "list_all named existing" by (auto simp: list_all_iff)
  have d: "distinct (map name_key existing)" using r by (rule merge_tools_distinct_keys)
  have "sorted (map lower_name (sort_key lower_name (map snd idx0)))" by (rule sorted_sort_key)
  with m have so: "sorted (map lower_name existing)" by simp
  from n d so show ?thesis by (simp add: catalog_ok_def)
qed

text \<open>
  Claim C1, as amended. Merging an empty batch reports zero insertions and an empty list
  of inserted records whenever the merge returns. It returns the catalog unchanged, the
  same records in the same order, when the catalog keeps the invariants of a written
  catalog: every record has a non-empty string name, no two records share a normalized
  name, and the records are in the order of their lowercased names. It returns no other
  catalog unchanged.
\<close>

theorem merge_empty_batch:
  "(\<forall>merged ins items. merge_tools existing [] = Inr (merged, ins, items) \<longrightarrow> ins = 0 \<and> items = [])
   \<and> (catalog_ok existing \<longrightarrow> merge_tools existing [] = Inr (existing, 0, []))
   \<and> (merge_tools existing [] = Inr (existing, 0, []) \<longrightarrow> catalog_ok existing)"
  using merge_empty_counts merge_catalog_ok merge_unchanged_ok by blast

theorem merge_empty_batch_witness:
  "catalog_ok [sample_tool ''Alpha'' [], sample_tool ''beta'' []]
   \<and> merge_tools [sample_tool ''Alpha'' [], sample_tool ''beta'' []] []
       = Inr ([sample_tool ''Alpha'' [], sample_tool ''beta'' []], 0, [])"
proof -
  have ok: "catalog_ok [sample_tool ''Alpha'' [], sample_tool ''beta'' []]" by code_simp
  with merge_empty_batch [of "[sample_tool ''Alpha'' [], sample_tool ''beta'' []]"]
  show ?thesis by blast
qed

text \<open>
  The claim as first stated, for any catalog, fails: a catalog out of order comes back
  sorted, of two records with one normalized name only the later one comes back, and a
  record with an empty name does not come back.
\<close>

theorem merge_empty_batch_counterexample:
  "merge_tools [sample_tool ''beta'' [], sample_tool ''Alpha'' []] []
       = Inr ([sample_tool ''Alpha'' [], sample_tool ''beta'' []], 0, [])
   \<and> [sample_tool ''Alpha'' [], sample_tool ''beta'' []]
       \<noteq> [sample_tool ''beta'' [], sample_tool ''Alpha'' []]
   \<and> merge_tools [sample_tool ''Foo'' ''first'', sample_tool ''FOO'' ''second''] []
       = Inr ([sample_tool ''FOO'' ''second''], 0, [])
   \<and> merge_tools [sample_tool [] ''nameless'', sample_tool ''Alpha'' []] []
       = Inr ([sample_tool ''Alpha'' []], 0, [])"
  by code_simp

lemma foo_keys:
  "normalize_name ''Foo'' = ''foo'' \<and> normalize_name ''foo'' = ''foo''
   \<and> normalize_name ''FOO '' = ''foo'' \<and> normalize_name ''  Foo'' = ''foo''"
  by code_simp

lemma foo_named: "ToolName t = Some (JStr ''Foo'') \<Longrightarrow> named t \<and> name_key t = ''foo''"
  using foo_keys by (simp add: named_def name_key_def name_str_def)

lemma foo_variant_key:
  "ToolName c = Some (JStr ''foo'') \<or> ToolName c = Some (JStr ''FOO '')
     \<or> ToolName c = Some (JStr ''  Foo'') \<Longrightarrow>
   py_normalize_name (get_ToolName c (JStr [])) = Inr ''foo''"
  using foo_keys by (auto simp: py_normalize_name_def get_ToolName_def)

lemma merge_foo_noop:
  assumes t: "t \<in> set existing" "ToolName t = Some (JStr ''Foo'')"
    and new: "\<forall>c\<in>set new. ToolName c = Some (JStr ''foo'') \<or> ToolName c = Some (JStr ''FOO '')
        \<or> ToolName c = Some (JStr ''  Foo'')"
  shows "merge_tools existing new = merge_tools existing []"
proof (cases "seed_index existing []")
  case (Inl e)
  then show ?thesis by (simp add: merge_tools_def)
next
  case (Inr idx0)
  from foo_named [OF t(2)] have nt: "named t" and kt: "name_key t = ''foo''" by simp_all
  from seed_index_has_key [OF Inr t(1) nt] kt have k: "''foo'' \<in> fst ` set idx0" by simp
  have "\<forall>c\<in>set new. \<exists>k. py_normalize_name (get_ToolName c (JStr [])) = Inr k
       \<and> (k = [] \<or> k \<in> fst ` set idx0)"
    using new k foo_variant_key by blast
  then have "merge_loop new idx0 0 [] = Inr (idx0, 0, [])" by (rule merge_loop_skip)
  then show ?thesis by (simp add: merge_tools_def Inr)
qed

lemma merge_keeps_last:
  assumes r: "merge_tools existing [] = Inr (merged, ins, items)"
    and e: "existing = pre @ t # post" and n: "named t"
    and p: "\<forall>u\<in>set post. name_key u \<noteq> name_key t"
  shows "t \<in> set merged"
proof -
  from merge_tools_result [OF r] obtain idx0 where
    s: "seed_index existing [] = Inr idx0" and m: "merged = sort_key lower_name (map snd idx0)"
    by auto
  from s e obtain i1 where
    s2: "seed_index (t # post) i1 = Inr idx0"
    by (auto simp: seed_index_append split: sum.splits)
  then have s3: "seed_index post (AList.update (name_key t) t i1) = Inr idx0"
    by (simp add: named_facts [OF n])
  have "(name_key t, t) \<in> set (AList.update (name_key t) t i1)" by (rule update_same_mem)
  from seed_index_keeps [OF s3 this p] have "(name_key t, t) \<in> set idx0" .
  then have "t \<in> snd ` set idx0" by force
  then show ?thesis by (simp add: m)
qed

text \<open>
  Claim C2, as amended. The merged catalog never holds two records with the same
  normalized name. When the existing catalog holds a record named "Foo" and every name of
  the new batch is "foo", "FOO " or "  Foo", the merge does what it does for an empty
  batch: nothing is inserted, and the record named "Foo" is in the merged catalog provided
  no later record of the existing catalog has the normalized name "foo".
\<close>

theorem merge_dedup:
  "(\<forall>merged ins items. merge_tools existing new = Inr (merged, ins, items)
       \<longrightarrow> distinct (map name_key merged))
   \<and> (t \<in> set existing \<and> ToolName t = Some (JStr ''Foo'')
        \<and> (\<forall>c\<in>set new. ToolName c = Some (JStr ''foo'') \<or> ToolName c = Some (JStr ''FOO '')
              \<or> ToolName c = Some (JStr ''  Foo''))
      \<longrightarrow> merge_tools existing new = merge_tools existing []
          \<and> (\<forall>merged ins items. merge_tools existing new = Inr (merged, ins, items)
                \<longrightarrow> ins = 0 \<and> items = []
                    \<and> ((\<exists>pre post. existing = pre @ t # post
                           \<and> (\<forall>u\<in>set post. name_key u \<noteq> ''foo''))
                        \<longrightarrow> t \<in> set merged)))"
proof (intro conjI impI allI)
  fix merged ins items
  assume "merge_tools existing new = Inr (merged, ins, items)"
  then show "distinct (map name_key merged)" by (rule merge_tools_distinct_keys)
next
  assume h: "t \<in> set existing \<and> ToolName t = Some (JStr ''Foo'')
        \<and> (\<forall>c\<in>set new. ToolName c = Some (JStr ''foo'') \<or> ToolName c = Some (JStr ''FOO '')
              \<or> ToolName c = Some (JStr ''  Foo''))"
  then show "merge_tools existing new = merge_tools existing []"
    using merge_foo_noop [of t existing new] by blast
next
  fix merged ins items
  assume h: "t \<in> set existing \<and> ToolName t = Some (JStr ''Foo'')
        \<and> (\<forall>c\<in>set new. ToolName c = Some (JStr ''foo'') \<or> ToolName c = Some (JStr ''FOO '')
              \<or> ToolName c = Some (JStr ''  Foo''))"
    and r: "merge_tools existing new = Inr (merged, ins, items)"
  from h have "merge_tools existing new = merge_tools existing []"
    using merge_foo_noop [of t existing new] by blast
  with r have r0: "merge_tools existing [] = Inr (merged, ins, items)" by simp
  from merge_empty_counts [OF r0] show "ins = 0" and "items = []" by simp_all
  assume "\<exists>pre post. existing = pre @ t # post \<and> (\<forall>u\<in>set post. name_key u \<noteq> ''foo'')"
  then obtain pre post where e: "existing = pre @ t # post"
    and p: "\<forall>u\<in>set post. name_key u \<noteq> ''foo''" by blast
  from h foo_named have nt: "named t" and kt: "name_key t = ''foo''" by simp_all
  from p kt have p': "\<forall>u\<in>set post. name_key u \<noteq> name_key t" by simp
  from merge_keeps_last [OF r0 e nt p'] show "t \<in> set merged" .
qed

text \<open>
  Without the proviso the record named "Foo" can be lost: a later existing record named
  "FOO" takes its place in the index.
\<close>

theorem merge_dedup_counterexample:
  "merge_tools [sample_tool ''Foo'' ''first'', sample_tool ''FOO'' ''second'']
       [sample_tool ''foo'' ''new'']
     = Inr ([sample_tool ''FOO'' ''second''], 0, [])
   \<and> sample_tool ''Foo'' ''first'' \<notin> set [sample_tool ''FOO'' ''second'']"
  by code_simp

theorem merge_dedup_witness:
  "merge_tools [sample_tool ''Bar'' [], sample_tool ''Foo'' ''first'']
       [sample_tool ''foo'' ''a'', sample_tool ''FOO '' ''b'', sample_tool ''  Foo'' ''c'']
     = Inr ([sample_tool ''Bar'' [], sample_tool ''Foo'' ''first''], 0, [])
   \<and> sample_tool ''Foo'' ''first'' \<in> set [sample_tool ''Bar'' [], sample_tool ''Foo'' ''first'']
   \<and> distinct (map name_key [sample_tool ''Bar'' [], sample_tool ''Foo'' ''first''])"
proof -
  let ?ex = "[sample_tool ''Bar'' [], sample_tool ''Foo'' ''first'']"
  let ?nw = "[sample_tool ''foo'' ''a'', sample_tool ''FOO '' ''b'', sample_tool ''  Foo'' ''c'']"
  have m: "sample_tool ''Foo'' ''first'' \<in> set ?ex" by simp
  have n: "ToolName (sample_tool ''Foo'' ''first'') = Some (JStr ''Foo'')"
    by (simp add: sample_tool_def)
  have c: "\<forall>c\<in>set ?nw. ToolName c = Some (JStr ''foo'') \<or> ToolName c = Some (JStr ''FOO '')
              \<or> ToolName c = Some (JStr ''  Foo'')"
    by (simp add: sample_tool_def)
  have e: "merge_tools ?ex [] = Inr (?ex, 0, [])" by code_simp
  from merge_dedup [of ?ex ?nw "sample_tool ''Foo'' ''first''"] m n c
  have eq: "merge_tools ?ex ?nw = merge_tools ?ex []"
    and d: "\<forall>merged ins items. merge_tools ?ex ?nw = Inr (merged, ins, items)
       \<longrightarrow> distinct (map name_key merged)"
    by blast+
  from eq e have r: "merge_tools ?ex ?nw = Inr (?ex, 0, [])" by simp
  with d have "distinct (map name_key ?ex)" by blast
  with r m show ?thesis by blast
qed

section \<open>Discovery\<close>

lemma str_or_nonempty: "d \<noteq> [] \<Longrightarrow> str_or v d \<noteq> []"
  by (simp add: str_or_def split: option.splits)

lemma ToolName_build_candidate:
  "ToolName (build_candidate e q it) = Some (JStr (str_or (it_name it) ''Unknown''))"
  by (simp add: build_candidate_def Let_def)

lemma named_build_candidate: "named (build_candidate e q it)"
  by (simp add: named_def ToolName_build_candidate str_or_nonempty)








text \<open>
  Claim C8 at a bound of zero. Both loops test their bound only after an append, so with
  \<open>max_results\<close> zero (or negative) and a first query that returns items, one candidate is
  collected and one record is returned: more than \<open>3 * max_results\<close> and more than
  \<open>max_results\<close>.
\<close>

theorem scout_zero_max_returns_one:
  "scout_github (sample_env (\<lambda>q. Inr [sample_item ''Zeta'', sample_item ''Eta''])) 0
     = Inr [build_candidate (sample_env (\<lambda>q. Inr [sample_item ''Zeta'', sample_item ''Eta'']))
              ''embedded rtos tool'' (sample_item ''Zeta'')]
   \<and> collect_queries (sample_env (\<lambda>q. Inr [sample_item ''Zeta'', sample_item ''Eta''])) 0
        build_queries []
     = Inr [build_candidate (sample_env (\<lambda>q. Inr [sample_item ''Zeta'', sample_item ''Eta'']))
              ''embedded rtos tool'' (sample_item ''Zeta'')]
   \<and> scout_github (sample_env (\<lambda>q. Inr [sample_item ''Zeta'', sample_item ''Eta''])) (- 1)
     = Inr [build_candidate (sample_env (\<lambda>q. Inr [sample_item ''Zeta'', sample_item ''Eta'']))
              ''embedded rtos tool'' (sample_item ''Zeta'')]"
  by code_simp

section \<open>Discovery within its bound\<close>

lemma take_length_append: "take (length xs) (xs @ ys) = xs"
  by simp

lemma collect_items_take:
  "1 \<le> mx \<Longrightarrow> int (length cands) < mx * 3 \<Longrightarrow>
   collect_items e mx q its cands = take (nat (mx * 3)) (cands @ map (build_candidate e q) its)"
proof (induction its arbitrary: cands)
  case Nil
  then show ?case by simp
next
  case (Cons it its)
  let ?c = "cands @ [build_candidate e q it]"
  show ?case
  proof (cases "int (length ?c) \<ge> mx * 3")
    case True
    with Cons.prems have len: "length ?c = nat (mx * 3)" by simp
    have "take (nat (mx * 3)) (?c @ map (build_candidate e q) its) = ?c"
      unfolding len [symmetric] by (rule take_length_append)
    then have "take (nat (mx * 3)) (cands @ map (build_candidate e q) (it # its)) = ?c"
      by simp
    with True show ?thesis by (simp add: Let_def)
  next
    case False
    then have "int (length ?c) < mx * 3" by simp
    from Cons.IH [OF Cons.prems(1) this] False show ?thesis by (simp add: Let_def)
  qed
qed

lemma all_candidates_Cons:
  "all_candidates e items (q # qs) = map (build_candidate e q) (items q) @ all_candidates e items qs"
  by (simp add: all_candidates_def)

lemma collect_queries_take:
  "1 \<le> mx \<Longrightarrow> int (length cands) < mx * 3 \<Longrightarrow> \<forall>q\<in>set qs. search e q = Inr (items q) \<Longrightarrow>
   collect_queries e mx qs cands = Inr (take (nat (mx * 3)) (cands @ all_candidates e items qs))"
proof (induction qs arbitrary: cands)
  case Nil
  then show ?case by (simp add: all_candidates_def)
next
  case (Cons q qs)
  let ?b = "map (build_candidate e q) (items q)"
  let ?c = "collect_items e mx q (items q) cands"
  from Cons.prems have s: "search e q = Inr (items q)" by simp
  have c: "?c = take (nat (mx * 3)) (cands @ ?b)"
    using Cons.prems(1,2) by (rule collect_items_take)
  show ?case
  proof (cases "int (length ?c) \<ge> mx * 3")
    case True
    then have "nat (mx * 3) \<le> length (cands @ ?b)" unfolding c by simp
    then have "take (nat (mx * 3)) ((cands @ ?b) @ all_candidates e items qs)
        = take (nat (mx * 3)) (cands @ ?b)" by simp
    then have "take (nat (mx * 3)) (cands @ all_candidates e items (q # qs)) = ?c"
      unfolding c all_candidates_Cons by simp
    with True s show ?thesis by (simp add: Let_def)
  next
    case False
    then have lt: "int (length ?c) < mx * 3" by simp
    then have "length (cands @ ?b) < nat (mx * 3)" unfolding c by auto
    then have full: "?c = cands @ ?b" unfolding c by simp
    from Cons.prems(3) have rest: "\<forall>q\<in>set qs. search e q = Inr (items q)" by simp
    from Cons.IH [OF Cons.prems(1) lt rest]
    have "collect_queries e mx qs ?c
        = Inr (take (nat (mx * 3)) (cands @ all_candidates e items (q # qs)))"
      unfolding all_candidates_Cons full by simp
    with False s show ?thesis by (simp add: Let_def)
  qed
qed

lemma named_ToolName: "named c \<Longrightarrow> \<exists>s. ToolName c = Some (JStr s) \<and> py_normalize_name (JStr s) = Inr (name_key c)"
  by (auto simp: named_def name_key_def name_str_def py_normalize_name_def
      split: option.splits jval.splits)

lemma dedup_loop_take:
  "1 \<le> mx \<Longrightarrow> int (length uniq) < mx \<Longrightarrow> list_all named cs \<Longrightarrow>
   dedup_loop mx cs seen uniq = Inr (take (nat mx) (uniq @ dedup_first seen cs))"
proof (induction cs arbitrary: seen uniq)
  case Nil
  then show ?case by simp
next
  case (Cons c cs)
  from Cons.prems(3) have nc: "named c" and rest: "list_all named cs" by simp_all
  from named_ToolName [OF nc] obtain s where
    v: "ToolName c = Some (JStr s)" and k: "py_normalize_name (JStr s) = Inr (name_key c)"
    by blast
  show ?case
  proof (cases "name_key c \<in> seen")
    case True
    with Cons.IH [OF Cons.prems(1,2) rest, of seen] v k show ?thesis by simp
  next
    case False
    let ?u = "uniq @ [c]"
    show ?thesis
    proof (cases "int (length ?u) \<ge> mx")
      case True
      with Cons.prems(2) have len: "length ?u = nat mx" by simp
      have "take (nat mx) (?u @ dedup_first (insert (name_key c) seen) cs) = ?u"
        unfolding len [symmetric] by (rule take_length_append)
      then have "take (nat mx) (uniq @ dedup_first seen (c # cs)) = ?u"
        using False by simp
      with True False v k show ?thesis by (simp add: Let_def)
    next
      case ge: False
      then have lt: "int (length ?u) < mx" by simp
      from Cons.IH [OF Cons.prems(1) lt rest, of "insert (name_key c) seen"]
      have "dedup_loop mx cs (insert (name_key c) seen) ?u
          = Inr (take (nat mx) (uniq @ dedup_first seen (c # cs)))"
        using False by simp
      with ge False v k show ?thesis by (simp add: Let_def)
    qed
  qed
qed

lemma dedup_first_subset: "set (dedup_first seen cs) \<subseteq> set cs"
  by (induction cs arbitrary: seen) auto

lemma dedup_first_keys:
  "name_key ` set (dedup_first seen cs) = name_key ` set cs - seen"
  by (induction cs arbitrary: seen) auto

lemma dedup_first_distinct: "distinct (map name_key (dedup_first seen cs))"
  by (induction cs arbitrary: seen) (auto simp: dedup_first_keys)

lemma all_candidates_named: "list_all named (all_candidates e items qs)"
  by (simp add: all_candidates_def list_all_iff named_build_candidate)

lemma distinct_map_take: "distinct (map f xs) \<Longrightarrow> distinct (map f (take n xs))"
  by (simp add: take_map [symmetric])

lemma list_all_take: "list_all P xs \<Longrightarrow> list_all P (take n xs)"
  by (auto simp: list_all_iff dest: in_set_takeD)

lemma list_all_dedup_first: "list_all P cs \<Longrightarrow> list_all P (dedup_first seen cs)"
  using dedup_first_subset [of seen cs] by (auto simp: list_all_iff)

lemma scout_github_value:
  assumes mx: "1 \<le> mx" and ok: "\<forall>q\<in>set build_queries. search e q = Inr (items q)"
  shows "scout_github e mx =
     Inr (sort_key lower_name (take (nat mx) (dedup_first {}
            (take (nat (mx * 3)) (all_candidates e items build_queries)))))"
proof -
  let ?cands = "take (nat (mx * 3)) (all_candidates e items build_queries)"
  let ?uniq = "take (nat mx) (dedup_first {} ?cands)"
  from mx have z: "int (length ([] :: tool list)) < mx * 3" by simp
  from collect_queries_take [OF mx z ok]
  have c: "collect_queries e mx build_queries [] = Inr ?cands" by simp
  have nc: "list_all named ?cands"
    by (intro list_all_take all_candidates_named)
  from mx have z': "int (length ([] :: tool list)) < mx" by simp
  from dedup_loop_take [OF mx z' nc, of "{}"]
  have d: "dedup_loop mx ?cands {} [] = Inr ?uniq" by simp
  have nu: "list_all named ?uniq"
    by (intro list_all_take list_all_dedup_first nc)
  from sort_by_name_named [OF nu] c d show ?thesis
    by (simp add: scout_github_def)
qed

text \<open>
  For a bound of at least one, and queries that all succeed, discovery does what the
  batch-level dedup is specified to do: the candidates of the queries, in order, are cut
  at three times the bound, deduplicated by normalized name keeping the first occurrence,
  cut at the bound and sorted by lowercased name. The result has at most \<open>max_results\<close>
  records, sorted, with distinct normalized names.
\<close>

theorem scout_github_bounded:
  "1 \<le> mx \<and> (\<forall>q\<in>set build_queries. search e q = Inr (items q)) \<longrightarrow>
     scout_github e mx =
       Inr (sort_key lower_name (take (nat mx) (dedup_first {}
              (take (nat (mx * 3)) (all_candidates e items build_queries)))))
     \<and> (\<forall>r. scout_github e mx = Inr r \<longrightarrow>
           int (length r) \<le> mx \<and> sorted (map lower_name r) \<and> distinct (map name_key r))"
proof (intro impI conjI allI)
  assume h: "1 \<le> mx \<and> (\<forall>q\<in>set build_queries. search e q = Inr (items q))"
  then show v: "scout_github e mx =
       Inr (sort_key lower_name (take (nat mx) (dedup_first {}
              (take (nat (mx * 3)) (all_candidates e items build_queries)))))"
    using scout_github_value [of mx e items] by blast
  fix r assume "scout_github e mx = Inr r"
  with v have r: "r = sort_key lower_name (take (nat mx) (dedup_first {}
              (take (nat (mx * 3)) (all_candidates e items build_queries))))" by simp
  have "length r \<le> nat mx" unfolding r by simp
  with h show "int (length r) \<le> mx" by linarith
  show "sorted (map lower_name r)" unfolding r by (rule sorted_sort_key)
  show "distinct (map name_key r)" unfolding r distinct_map_sort_key
    by (intro distinct_map_take dedup_first_distinct)
qed

theorem scout_github_bounded_witness:
  "(1::int) \<le> 2
   \<and> scout_github (sample_env (\<lambda>q. Inr [sample_item ''Zeta'', sample_item ''zeta '',
          sample_item ''Eta''])) 2
     = Inr [build_candidate (sample_env (\<lambda>q. Inr [sample_item ''Zeta'', sample_item ''zeta '',
                sample_item ''Eta''])) ''embedded rtos tool'' (sample_item ''Eta''),
            build_candidate (sample_env (\<lambda>q. Inr [sample_item ''Zeta'', sample_item ''zeta '',
                sample_item ''Eta''])) ''embedded rtos tool'' (sample_item ''Zeta'')]"
proof -
  let ?its = "[sample_item ''Zeta'', sample_item ''zeta '', sample_item ''Eta'']"
  let ?E = "sample_env (\<lambda>q. Inr ?its)"
  have ok: "\<forall>q\<in>set build_queries. search ?E q = Inr ((\<lambda>q. ?its) q)"
    by (simp add: sample_env_def)
  have v: "sort_key lower_name (take (nat 2) (dedup_first {}
              (take (nat (2 * 3)) (all_candidates ?E (\<lambda>q. ?its) build_queries))))
      = [build_candidate ?E ''embedded rtos tool'' (sample_item ''Eta''),
         build_candidate ?E ''embedded rtos tool'' (sample_item ''Zeta'')]"
    by code_simp
  from scout_github_bounded [of 2 ?E "\<lambda>q. ?its"] ok
  have "scout_github ?E 2 = Inr (sort_key lower_name (take (nat 2) (dedup_first {}
              (take (nat (2 * 3)) (all_candidates ?E (\<lambda>q. ?its) build_queries)))))"
    by simp
  with v show ?thesis by simp
qed

section \<open>The run and its failure path\<close>













end
